theory Spec2Isabelle
  imports Main "HOL-Library.Multiset"
begin

section \<open>Go strings\<close>

text \<open>
  Go strings are byte sequences; they are modelled as \<^typ>\<open>string\<close> (lists of
  8-bit characters).  The three functions of package \<^verbatim>\<open>strings\<close> that the
  program relies on are written out.
\<close>

text \<open>\<^verbatim>\<open>strings.HasPrefix(s, prefix)\<close>: \<open>s\<close> begins with \<open>prefix\<close>.\<close>

fun HasPrefix :: "string \<Rightarrow> string \<Rightarrow> bool" where
  "HasPrefix s [] = True"
| "HasPrefix [] (p # ps) = False"
| "HasPrefix (c # cs) (p # ps) = (c = p \<and> HasPrefix cs ps)"

text \<open>\<^verbatim>\<open>strings.Contains(s, substr)\<close>: \<open>substr\<close> occurs somewhere in \<open>s\<close>.\<close>

fun Contains :: "string \<Rightarrow> string \<Rightarrow> bool" where
  "Contains [] substr = (substr = [])"
| "Contains (c # cs) substr = (HasPrefix (c # cs) substr \<or> Contains cs substr)"

text \<open>
  \<^verbatim>\<open>strings.ReplaceAll(s, old, new)\<close> replaces the non-overlapping occurrences of
  \<open>old\<close>, found from left to right, by \<open>new\<close>.  With an empty \<open>old\<close> Go inserts
  \<open>new\<close> in front of the string and after every UTF-8 sequence; the model does so after
  every byte, which is the same on ASCII text.
\<close>

function replaceNonEmpty :: "string \<Rightarrow> string \<Rightarrow> string \<Rightarrow> string" where
  "replaceNonEmpty [] old new = []"
| "replaceNonEmpty (c # cs) old new =
     (if old \<noteq> [] \<and> HasPrefix (c # cs) old
      then new @ replaceNonEmpty (drop (length old) (c # cs)) old new
      else c # replaceNonEmpty cs old new)"
  by pat_completeness auto
termination
  by (relation "measure (\<lambda>(s, old, new). length s)") (auto simp: neq_Nil_conv)

definition ReplaceAll :: "string \<Rightarrow> string \<Rightarrow> string \<Rightarrow> string" where
  "ReplaceAll s old new =
     (if old = [] then new @ concat (map (\<lambda>c. c # new) s) else replaceNonEmpty s old new)"

section \<open>The materialized-view catalog (package db)\<close>

record PostgresMaterializedView =
  Name :: string
  Definition :: string
  ReplaceStrings :: "(string \<times> string) list"

text \<open>
  \<open>ReplaceStrings\<close> is a Go map; it is kept as the list of its key/value pairs (the keys
  of every literal below are distinct).  A map that is left out of a composite literal
  is nil and has no pairs.
\<close>

definition testReportMatView :: string where
  "testReportMatView = concat [
     ''\<newline>'',
     ''SELECT \<newline>'',
     CHR 0x09 # ''tests.name AS name,\<newline>'',
     CHR 0x09 # ''coalesce(count(case when status = 1 AND timestamp BETWEEN |||START||| AND |||BOUNDARY||| then 1 end), 0) AS previous_successes,\<newline>'',
     ''    coalesce(count(case when status = 13 AND timestamp BETWEEN |||START||| AND |||BOUNDARY||| then 1 end), 0) AS previous_flakes,\<newline>'',
     ''    coalesce(count(case when status = 12 AND timestamp BETWEEN |||START||| AND |||BOUNDARY||| then 1 end), 0) AS previous_failures,\<newline>'',
     ''    coalesce(count(case when timestamp BETWEEN |||START||| AND |||BOUNDARY||| then 1 end), 0) as previous_runs,\<newline>'',
     ''    coalesce(count(case when status = 1 AND timestamp BETWEEN |||BOUNDARY||| AND |||END||| then 1 end), 0) AS current_successes,\<newline>'',
     ''    coalesce(count(case when status = 13 AND timestamp BETWEEN |||BOUNDARY||| AND |||END||| then 1 end), 0) AS current_flakes,\<newline>'',
     ''    coalesce(count(case when status = 12 AND timestamp BETWEEN |||BOUNDARY||| AND |||END||| then 1 end), 0) AS current_failures,\<newline>'',
     ''    coalesce(count(case when timestamp BETWEEN |||BOUNDARY||| AND |||END||| then 1 end), 0) as current_runs,\<newline>'',
     ''    prow_jobs.variants, prow_jobs.release\<newline>'',
     ''FROM prow_job_run_tests\<newline>'',
     ''    JOIN tests ON tests.id = prow_job_run_tests.test_id\<newline>'',
     ''    JOIN prow_job_runs ON prow_job_runs.id = prow_job_run_tests.prow_job_run_id\<newline>'',
     ''    JOIN prow_jobs ON prow_job_runs.prow_job_id = prow_jobs.id\<newline>'',
     ''GROUP BY tests.name, prow_jobs.variants, prow_jobs.release\<newline>'']"

definition testAnalysisByVariantMatView :: string where
  "testAnalysisByVariantMatView = concat [
     ''\<newline>'',
     ''SELECT \<newline>'',
     ''       tests.id AS test_id,\<newline>'',
     ''       tests.name AS test_name,\<newline>'',
     ''       date(prow_job_runs.timestamp) AS date,\<newline>'',
     ''       unnest(prow_jobs.variants) AS variant, \<newline>'',
     ''       prow_jobs.release AS release,\<newline>'',
     ''       coalesce(count(case when timestamp BETWEEN NOW() - INTERVAL '14 DAY' AND NOW() then 1 end), 0) as runs,\<newline>'',
     ''       coalesce(count(case when status = 1 AND timestamp BETWEEN NOW() - INTERVAL '14 DAY' AND NOW() then 1 end), 0) AS passes,\<newline>'',
     ''       coalesce(count(case when status = 13 AND timestamp BETWEEN NOW() - INTERVAL '14 DAY' AND NOW() then 1 end), 0) AS flakes,\<newline>'',
     ''       coalesce(count(case when status = 12 AND timestamp BETWEEN NOW() - INTERVAL '14 DAY' AND NOW() then 1 end), 0) AS failures\<newline>'',
     ''FROM prow_job_run_tests\<newline>'',
     ''         JOIN tests ON tests.id = prow_job_run_tests.test_id\<newline>'',
     ''         JOIN prow_job_runs ON prow_job_runs.id = prow_job_run_tests.prow_job_run_id\<newline>'',
     ''         JOIN prow_jobs ON prow_jobs.id = prow_job_runs.prow_job_id\<newline>'',
     ''WHERE timestamp > NOW() - INTERVAL '14 DAY'\<newline>'',
     ''GROUP BY tests.name, tests.id, date, variant, release\<newline>'']"

definition testAnalysisByJobMatView :: string where
  "testAnalysisByJobMatView = concat [
     ''\<newline>'',
     ''SELECT \<newline>'',
     ''       tests.id AS test_id,\<newline>'',
     ''       tests.name AS test_name,\<newline>'',
     ''       date(prow_job_runs.timestamp) AS date,\<newline>'',
     ''       prow_jobs.release AS release,\<newline>'',
     ''       prow_jobs.name AS job_name,\<newline>'',
     ''       coalesce(count(case when timestamp BETWEEN NOW() - INTERVAL '14 DAY' AND NOW() then 1 end), 0) as runs,\<newline>'',
     ''       coalesce(count(case when status = 1 AND timestamp BETWEEN NOW() - INTERVAL '14 DAY' AND NOW() then 1 end), 0) AS passes,\<newline>'',
     ''       coalesce(count(case when status = 13 AND timestamp BETWEEN NOW() - INTERVAL '14 DAY' AND NOW() then 1 end), 0) AS flakes,\<newline>'',
     ''       coalesce(count(case when status = 12 AND timestamp BETWEEN NOW() - INTERVAL '14 DAY' AND NOW() then 1 end), 0) AS failures\<newline>'',
     ''FROM prow_job_run_tests\<newline>'',
     ''         JOIN tests ON tests.id = prow_job_run_tests.test_id\<newline>'',
     ''         JOIN prow_job_runs ON prow_job_runs.id = prow_job_run_tests.prow_job_run_id\<newline>'',
     ''         JOIN prow_jobs ON prow_jobs.id = prow_job_runs.prow_job_id\<newline>'',
     ''WHERE timestamp > NOW() - INTERVAL '14 DAY'\<newline>'',
     ''GROUP BY tests.name, tests.id, date, release, job_name\<newline>'']"

definition PostgresMatViews :: "PostgresMaterializedView list" where
  "PostgresMatViews =
    [\<lparr>Name = ''prow_test_report_7d_matview'',
      Definition = testReportMatView,
      ReplaceStrings =
        [(''|||START|||'', ''NOW() - INTERVAL '14 DAY'' @ [CHR 0x27]),
         (''|||BOUNDARY|||'', ''NOW() - INTERVAL '7 DAY'' @ [CHR 0x27]),
         (''|||END|||'', ''NOW()'')]\<rparr>,
     \<lparr>Name = ''prow_test_analysis_by_variant_14d_matview'',
      Definition = testAnalysisByVariantMatView,
      ReplaceStrings = []\<rparr>,
     \<lparr>Name = ''prow_test_analysis_by_job_14d_matview'',
      Definition = testAnalysisByJobMatView,
      ReplaceStrings = []\<rparr>,
     \<lparr>Name = ''prow_test_report_2d_matview'',
      Definition = testReportMatView,
      ReplaceStrings =
        [(''|||START|||'', ''NOW() - INTERVAL '9 DAY'' @ [CHR 0x27]),
         (''|||BOUNDARY|||'', ''NOW() - INTERVAL '2 DAY'' @ [CHR 0x27]),
         (''|||END|||'', ''NOW()'')]\<rparr>]"

text \<open>
  The substitution loop of \<^verbatim>\<open>createPostgresMaterializedViews\<close>:
  \<^verbatim>\<open>vd := pmv.Definition; for k, v := range pmv.ReplaceStrings { vd = strings.ReplaceAll(vd, k, v) }\<close>.
  Go visits the pairs of a map in an order that it does not specify, so the order is a
  parameter: \<open>rangeOrder\<close> maps the pairs of a map to the sequence in which this
  \<^verbatim>\<open>range\<close> visits them.
\<close>

type_synonym rangeOrder = "(string \<times> string) list \<Rightarrow> (string \<times> string) list"

definition replaceStrings :: "rangeOrder \<Rightarrow> PostgresMaterializedView \<Rightarrow> string" where
  "replaceStrings ord pmv =
     fold (\<lambda>(k, v) vd. ReplaceAll vd k v) (ord (ReplaceStrings pmv)) (Definition pmv)"

text \<open>
  What the report template is meant to be, with the three boundaries as arguments: the
  \<open>previous_*\<close> columns count the results between \<open>start\<close> and \<open>boundary\<close>, the
  \<open>current_*\<close> columns those between \<open>boundary\<close> and \<open>finish\<close>.  It is compared
  with the text that the substitution loop emits.
\<close>

definition twoHalfWindowReport :: "string \<Rightarrow> string \<Rightarrow> string \<Rightarrow> string" where
  "twoHalfWindowReport start boundary finish = concat [
     ''\<newline>'',
     ''SELECT \<newline>'',
     CHR 0x09 # ''tests.name AS name,\<newline>'',
     [CHR 0x09] @ ''coalesce(count(case when status = 1 AND timestamp BETWEEN '' @ start @ '' AND '' @ boundary @ '' then 1 end), 0) AS previous_successes,\<newline>'',
     ''    coalesce(count(case when status = 13 AND timestamp BETWEEN '' @ start @ '' AND '' @ boundary @ '' then 1 end), 0) AS previous_flakes,\<newline>'',
     ''    coalesce(count(case when status = 12 AND timestamp BETWEEN '' @ start @ '' AND '' @ boundary @ '' then 1 end), 0) AS previous_failures,\<newline>'',
     ''    coalesce(count(case when timestamp BETWEEN '' @ start @ '' AND '' @ boundary @ '' then 1 end), 0) as previous_runs,\<newline>'',
     ''    coalesce(count(case when status = 1 AND timestamp BETWEEN '' @ boundary @ '' AND '' @ finish @ '' then 1 end), 0) AS current_successes,\<newline>'',
     ''    coalesce(count(case when status = 13 AND timestamp BETWEEN '' @ boundary @ '' AND '' @ finish @ '' then 1 end), 0) AS current_flakes,\<newline>'',
     ''    coalesce(count(case when status = 12 AND timestamp BETWEEN '' @ boundary @ '' AND '' @ finish @ '' then 1 end), 0) AS current_failures,\<newline>'',
     ''    coalesce(count(case when timestamp BETWEEN '' @ boundary @ '' AND '' @ finish @ '' then 1 end), 0) as current_runs,\<newline>'',
     ''    prow_jobs.variants, prow_jobs.release\<newline>'',
     ''FROM prow_job_run_tests\<newline>'',
     ''    JOIN tests ON tests.id = prow_job_run_tests.test_id\<newline>'',
     ''    JOIN prow_job_runs ON prow_job_runs.id = prow_job_run_tests.prow_job_run_id\<newline>'',
     ''    JOIN prow_jobs ON prow_job_runs.prow_job_id = prow_jobs.id\<newline>'',
     ''GROUP BY tests.name, prow_jobs.variants, prow_jobs.release\<newline>'']"

section \<open>Errors and the store behind gorm\<close>

text \<open>
  Go errors are values.  \<open>ErrRecordNotFound\<close> is \<^verbatim>\<open>gorm.ErrRecordNotFound\<close>,
  \<open>AlreadyExists n\<close> is what the storage engine answers to a
  \<^verbatim>\<open>CREATE MATERIALIZED VIEW n\<close> when \<open>n\<close> is already there, \<open>Failure msg\<close> is any
  other failure of a statement or of \<^verbatim>\<open>fmt.Errorf\<close>, and \<open>Wrapped e msg\<close> is
  \<^verbatim>\<open>errors.Wrapf(e, msg)\<close> or \<^verbatim>\<open>errors.WithMessage(e, msg)\<close>.
\<close>

datatype error = ErrRecordNotFound | AlreadyExists string | Failure string | Wrapped error string

text \<open>\<^verbatim>\<open>errors.Is(err, target)\<close> looks for \<open>target\<close> along the chain of wrapped errors.\<close>

fun errors_Is :: "error \<Rightarrow> error \<Rightarrow> bool" where
  "errors_Is (Wrapped e msg) target = (Wrapped e msg = target \<or> errors_Is e target)"
| "errors_Is e target = (e = target)"

text \<open>
  The database that a \<^verbatim>\<open>*gorm.DB\<close> handle talks to, as far as this package reads and
  writes it:
  \<^item> \<open>pg_matviews\<close>: the \<^verbatim>\<open>matviewname\<close> column of the catalog of materialized views;
  \<^item> \<open>suites\<close>: the \<^verbatim>\<open>name\<close> column of the rows of the suite table, oldest first;
  \<^item> \<open>tables\<close>: the \<^verbatim>\<open>id\<close> column of the tables that \<^verbatim>\<open>LastID\<close> is asked about;
  \<^item> \<open>sent\<close>: the statements passed to \<^verbatim>\<open>Exec\<close>, oldest first;
  \<^item> \<open>faults\<close>: the outcome of the statements to come, one entry per statement:
    \<open>None\<close> lets the statement run, \<open>Some msg\<close> makes it fail with that message
    (a lost connection, a timeout, a missing privilege).  When the list is used up
    every statement runs.
  Every call on the handle takes the store and returns it.
\<close>

record gorm_db =
  pg_matviews :: "string list"
  suites :: "string list"
  tables :: "(string \<times> int list) list"
  sent :: "string list"
  faults :: "string option list"

definition nextFault :: "gorm_db \<Rightarrow> string option \<times> gorm_db" where
  "nextFault db = (case faults db of [] \<Rightarrow> (None, db) | f # fs \<Rightarrow> (f, db\<lparr>faults := fs\<rparr>))"

text \<open>\<^verbatim>\<open>db.Raw("SELECT COUNT(*) FROM pg_matviews WHERE matviewname = ?", name).Count(&count)\<close>\<close>

definition countMatViews :: "string \<Rightarrow> gorm_db \<Rightarrow> (error + int) \<times> gorm_db" where
  "countMatViews name db =
     (case nextFault db of
        (Some msg, db1) \<Rightarrow> (Inl (Failure msg), db1)
      | (None, db1) \<Rightarrow> (Inr (int (count_list (pg_matviews db1) name)), db1))"

text \<open>\<^verbatim>\<open>fmt.Sprintf("CREATE MATERIALIZED VIEW %s AS %s", name, vd)\<close>\<close>

definition createStatement :: "string \<Rightarrow> string \<Rightarrow> string" where
  "createStatement name vd = ''CREATE MATERIALIZED VIEW '' @ name @ '' AS '' @ vd"

text \<open>The view that a statement creates: the word after \<^verbatim>\<open>CREATE MATERIALIZED VIEW\<close>.\<close>

definition createdViewName :: "string \<Rightarrow> string option" where
  "createdViewName sql =
     (if HasPrefix sql ''CREATE MATERIALIZED VIEW ''
      then Some (takeWhile (\<lambda>c. c \<noteq> CHR '' '') (drop (length ''CREATE MATERIALIZED VIEW '') sql))
      else None)"

text \<open>
  \<^verbatim>\<open>db.Exec(sql)\<close>.  The statement is recorded in \<open>sent\<close> whatever becomes of it.  A
  statement that creates a view fails when a view of that name exists, and adds the
  name to the catalog otherwise.
\<close>

definition Exec :: "string \<Rightarrow> gorm_db \<Rightarrow> error option \<times> gorm_db" where
  "Exec sql db =
     (case nextFault (db\<lparr>sent := sent db @ [sql]\<rparr>) of
        (Some msg, db1) \<Rightarrow> (Some (Failure msg), db1)
      | (None, db1) \<Rightarrow>
          (case createdViewName sql of
             None \<Rightarrow> (None, db1)
           | Some name \<Rightarrow>
               if name \<in> set (pg_matviews db1) then (Some (AlreadyExists name), db1)
               else (None, db1\<lparr>pg_matviews := pg_matviews db1 @ [name]\<rparr>)))"

text \<open>
  \<^verbatim>\<open>createPostgresMaterializedViews\<close>: the \<^verbatim>\<open>for _, pmv := range PostgresMatViews\<close> loop
  as a recursion over the catalog; every \<^verbatim>\<open>return res.Error\<close> ends it.
\<close>

fun createViewsLoop ::
  "rangeOrder \<Rightarrow> PostgresMaterializedView list \<Rightarrow> gorm_db \<Rightarrow> error option \<times> gorm_db" where
  "createViewsLoop ord [] db = (None, db)"
| "createViewsLoop ord (pmv # rest) db =
     (case countMatViews (Name pmv) db of
        (Inl e, db1) \<Rightarrow> (Some e, db1)
      | (Inr cnt, db1) \<Rightarrow>
          if cnt = 0 then
            (case Exec (createStatement (Name pmv) (replaceStrings ord pmv)) db1 of
               (Some e, db2) \<Rightarrow> (Some e, db2)
             | (None, db2) \<Rightarrow> createViewsLoop ord rest db2)
          else createViewsLoop ord rest db1)"

definition createPostgresMaterializedViews :: "rangeOrder \<Rightarrow> gorm_db \<Rightarrow> error option \<times> gorm_db" where
  "createPostgresMaterializedViews ord db = createViewsLoop ord PostgresMatViews db"


subsection \<open>The suite registry\<close>

definition testSuitePrefixes :: "string list" where
  "testSuitePrefixes = [''openshift-tests'', ''openshift-tests-upgrade'', ''sippy'']"

text \<open>\<^verbatim>\<open>db.Where("name = ?", suiteName).First(&s)\<close>\<close>

definition firstSuite :: "string \<Rightarrow> gorm_db \<Rightarrow> error option \<times> gorm_db" where
  "firstSuite suiteName db =
     (case nextFault db of
        (Some msg, db1) \<Rightarrow> (Some (Failure msg), db1)
      | (None, db1) \<Rightarrow>
          (if suiteName \<in> set (suites db1) then (None, db1) else (Some ErrRecordNotFound, db1)))"

text \<open>
  \<^verbatim>\<open>db.Clauses(clause.OnConflict{UpdateAll: true}).Create(&s)\<close> with a new \<open>s\<close>: the row
  gets a fresh key, no key conflicts, and the row is inserted.
\<close>

definition createSuite :: "string \<Rightarrow> gorm_db \<Rightarrow> error option \<times> gorm_db" where
  "createSuite suiteName db =
     (case nextFault db of
        (Some msg, db1) \<Rightarrow> (Some (Failure msg), db1)
      | (None, db1) \<Rightarrow> (None, db1\<lparr>suites := suites db1 @ [suiteName]\<rparr>))"

fun populateLoop :: "string list \<Rightarrow> gorm_db \<Rightarrow> error option \<times> gorm_db" where
  "populateLoop [] db = (None, db)"
| "populateLoop (suiteName # rest) db =
     (case firstSuite suiteName db of
        (Some e, db1) \<Rightarrow>
          if \<not> errors_Is e ErrRecordNotFound then (Some e, db1)
          else
            (case createSuite suiteName db1 of
               (Some err, db2) \<Rightarrow>
                 (Some (Wrapped err (''error loading suite into db: '' @ suiteName)), db2)
             | (None, db2) \<Rightarrow> populateLoop rest db2)
      | (None, db1) \<Rightarrow> populateLoop rest db1)"

definition populateTestSuitesInDB :: "gorm_db \<Rightarrow> error option \<times> gorm_db" where
  "populateTestSuitesInDB db = populateLoop testSuitePrefixes db"

subsection \<open>The client\<close>

text \<open>
  The field \<^verbatim>\<open>DB *gorm.DB\<close> is the handle; it is kept as the data source name it was
  opened on, the store itself being passed along.
\<close>

record DB =
  DB :: string
  BatchSize :: int

text \<open>\<^verbatim>\<open>gorm.Open(postgres.Open(dsn), ...)\<close>: connecting may fail.\<close>

definition Open :: "string \<Rightarrow> gorm_db \<Rightarrow> error option \<times> gorm_db" where
  "Open dsn db =
     (case nextFault db of (Some msg, db1) \<Rightarrow> (Some (Failure msg), db1) | (None, db1) \<Rightarrow> (None, db1))"

text \<open>
  \<^verbatim>\<open>db.AutoMigrate(&models.M{})\<close> brings the table of one model up to date.  The columns
  it adds are outside the model; that it may fail is what \<^verbatim>\<open>New\<close> depends on.
\<close>

definition AutoMigrate :: "string \<Rightarrow> gorm_db \<Rightarrow> error option \<times> gorm_db" where
  "AutoMigrate model db =
     (case nextFault db of (Some msg, db1) \<Rightarrow> (Some (Failure msg), db1) | (None, db1) \<Rightarrow> (None, db1))"

text \<open>The ten migrations of \<^verbatim>\<open>New\<close>, in its order; the first failure is returned.\<close>

definition migratedModels :: "string list" where
  "migratedModels = [''ReleaseTag'', ''PullRequest'', ''Repository'', ''JobRun'', ''ProwJob'',
     ''ProwJobRun'', ''Test'', ''Suite'', ''ProwJobRunTest'', ''Bug'']"

fun migrateAll :: "string list \<Rightarrow> gorm_db \<Rightarrow> error option \<times> gorm_db" where
  "migrateAll [] db = (None, db)"
| "migrateAll (m # ms) db =
     (case AutoMigrate m db of (Some e, db1) \<Rightarrow> (Some e, db1) | (None, db1) \<Rightarrow> migrateAll ms db1)"

definition New :: "rangeOrder \<Rightarrow> string \<Rightarrow> gorm_db \<Rightarrow> (error + DB) \<times> gorm_db" where
  "New ord dsn db =
     (case Open dsn db of
        (Some e, db1) \<Rightarrow> (Inl e, db1)
      | (None, db1) \<Rightarrow>
     (case migrateAll migratedModels db1 of
        (Some e, db2) \<Rightarrow> (Inl e, db2)
      | (None, db2) \<Rightarrow>
     (case populateTestSuitesInDB db2 of
        (Some e, db3) \<Rightarrow> (Inl e, db3)
      | (None, db3) \<Rightarrow>
     (case createPostgresMaterializedViews ord db3 of
        (Some e, db4) \<Rightarrow> (Inl e, db4)
      | (None, db4) \<Rightarrow> (Inr \<lparr>DB = dsn, BatchSize = 1024\<rparr>, db4)))))"

text \<open>
  \<^verbatim>\<open>db.DB.Table(table).Order("id desc").Limit(1).Select("id").Scan(&lastID)\<close>: the query
  fails on a fault and on a table that does not exist; on a table without rows it
  succeeds and scans nothing.
\<close>

fun highest :: "int list \<Rightarrow> int option" where
  "highest [] = None"
| "highest (i # ids) = Some (fold max ids i)"

definition scanLastID :: "string \<Rightarrow> gorm_db \<Rightarrow> (error + int option) \<times> gorm_db" where
  "scanLastID table db =
     (case nextFault db of
        (Some msg, db1) \<Rightarrow> (Inl (Failure msg), db1)
      | (None, db1) \<Rightarrow>
          (case map_of (tables db1) table of
             None \<Rightarrow> (Inl (Failure (''relation does not exist: '' @ table)), db1)
           | Some ids \<Rightarrow> (Inr (highest ids), db1)))"

text \<open>
  \<^verbatim>\<open>LastID\<close>: \<open>lastID\<close> starts as 0, \<^verbatim>\<open>Scan\<close> stores the id it finds, and an error sets
  it back to 0.  The result is an \<^verbatim>\<open>int\<close>; there is no error result.
\<close>

definition LastID :: "DB \<Rightarrow> string \<Rightarrow> gorm_db \<Rightarrow> int \<times> gorm_db" where
  "LastID c table db =
     (case scanLastID table db of
        (Inl e, db1) \<Rightarrow> (0, db1)
      | (Inr None, db1) \<Rightarrow> (0, db1)
      | (Inr (Some lastID), db1) \<Rightarrow> (lastID, db1))"

text \<open>
  Modelled from the spec: the chunked batch write, which is not in this package (the
  loaders pass \<open>BatchSize\<close> to it).  ``A batch write of more rows than the configured
  ceiling is chunked into multiple sub-batches'': the rows are cut, in order, into
  sub-batches of \<open>batchSize\<close> rows, the last one holding what is left.
\<close>

function CreateInBatches :: "'row list \<Rightarrow> nat \<Rightarrow> 'row list list" where
  "CreateInBatches rows batchSize =
     (if batchSize = 0 \<or> rows = [] then []
      else take batchSize rows # CreateInBatches (drop batchSize rows) batchSize)"
  by pat_completeness auto
termination
  by (relation "measure (\<lambda>(rows, batchSize). length rows)") auto

declare CreateInBatches.simps [simp del]

section \<open>The test identity normalizer\<close>

text \<open>
  Modelled from the spec: the function that splits a raw test name, which is not in
  this package (only the registry \<open>testSuitePrefixes\<close> is; its comment says that a suite
  appears as \<^verbatim>\<open>suiteName.testName\<close>).  ``Matching is prefix-based against the registry,
  longest/most-specific match wins when prefixes could overlap.  Unmatched names pass
  through unchanged with no suite.''
\<close>

definition matchingSuites :: "string list \<Rightarrow> string \<Rightarrow> string list" where
  "matchingSuites registry raw = filter (\<lambda>p. HasPrefix raw (p @ ''.'')) registry"

definition longest :: "string \<Rightarrow> string list \<Rightarrow> string" where
  "longest p ps = fold (\<lambda>q best. if length best < length q then q else best) ps p"

definition normalizeTestName :: "string list \<Rightarrow> string \<Rightarrow> string option \<times> string" where
  "normalizeTestName registry raw =
     (case matchingSuites registry raw of
        [] \<Rightarrow> (None, raw)
      | p # ps \<Rightarrow> (Some (longest p ps), drop (length (longest p ps) + 1) raw))"

section \<open>The load command (package main)\<close>

record LoadFlags =
  InitDatabase :: bool
  Loaders :: "string list"

text \<open>
  A \<^verbatim>\<open>dataloader.DataLoader\<close> over a store of type \<open>'s\<close>: its name, and what \<^verbatim>\<open>Load()\<close>
  does to the store together with what \<^verbatim>\<open>Errors()\<close> returns afterwards.
\<close>

record 's DataLoader =
  LoaderName :: string
  Load :: "'s \<Rightarrow> 's \<times> error list"

text \<open>
  What the command calls outside this file, with the arguments that the flags fix
  already applied: each is a result, or a function of the store.
\<close>

record 's collaborators =
  GetDBClient :: "error option"
  UpdateSchema :: "'s \<Rightarrow> error option \<times> 's"
  GetConfig :: "error option"
  releaseloader_New :: "'s DataLoader"
  prowLoader :: "error + 's DataLoader"
  jiraloader_New :: "'s DataLoader"
  testownershiploader_New :: "error + 's DataLoader"
  bugloader_New :: "'s DataLoader"
  RefreshData :: "'s \<Rightarrow> 's"

text \<open>
  The state of one invocation: the store, and the calls made so far that the ordering
  of the command is about.
\<close>

datatype event = Loaded string | Refreshed

record 's invocation =
  store :: 's
  trace :: "event list"

text \<open>
  Modelled from the spec: the coordinator \<^verbatim>\<open>loaderwithmetrics\<close>, which is not in this
  file.  ``It invokes every selected loader in sequence \<dots> and exposes errors(),
  collecting every fatal error encountered, tagged with the loader that produced it.''
  The result is the state when \<^verbatim>\<open>Load()\<close> returns and the value of \<^verbatim>\<open>Errors()\<close> then.
\<close>

fun loaderwithmetrics_Load ::
  "'s DataLoader list \<Rightarrow> 's invocation \<Rightarrow> 's invocation \<times> error list" where
  "loaderwithmetrics_Load [] st = (st, [])"
| "loaderwithmetrics_Load (ld # lds) st =
     (case Load ld (store st) of
        (s1, errs) \<Rightarrow>
          (case loaderwithmetrics_Load lds
                  \<lparr>store = s1, trace = trace st @ [Loaded (LoaderName ld)]\<rparr> of
             (st2, errs2) \<Rightarrow> (st2, map (\<lambda>e. Wrapped e (LoaderName ld)) errs @ errs2)))"

text \<open>
  The \<^verbatim>\<open>for _, l := range f.Loaders\<close> loop of the command: the five tests on \<open>l\<close> in the
  order of the source, a failing constructor returning its error at once.
\<close>

fun selectLoaders ::
  "'s collaborators \<Rightarrow> string list \<Rightarrow> 's DataLoader list \<Rightarrow> error + 's DataLoader list" where
  "selectLoaders env [] loaders = Inr loaders"
| "selectLoaders env (l # ls) loaders =
     (let loaders1 = (if l = ''releases'' then loaders @ [releaseloader_New env] else loaders) in
      case (if l = ''prow''
            then (case prowLoader env of
                    Inl err \<Rightarrow> Inl err
                  | Inr prow \<Rightarrow> Inr (loaders1 @ [prow]))
            else Inr loaders1) of
        Inl err \<Rightarrow> Inl err
      | Inr loaders2 \<Rightarrow>
     (let loaders3 = (if l = ''jira'' then loaders2 @ [jiraloader_New env] else loaders2) in
      case (if l = ''test-mapping''
            then (case testownershiploader_New env of
                    Inl err \<Rightarrow> Inl (Wrapped err ''failed to create component loader'')
                  | Inr cl \<Rightarrow> Inr (loaders3 @ [cl]))
            else Inr loaders3) of
        Inl err \<Rightarrow> Inl err
      | Inr loaders4 \<Rightarrow>
          selectLoaders env ls
            (if l = ''bugs'' then loaders4 @ [bugloader_New env] else loaders4)))"

text \<open>
  \<^verbatim>\<open>RunE\<close> of the load command.  The deferred \<^verbatim>\<open>cancel()\<close>, the clock and the log lines
  have no part in the result.
\<close>

definition RunE :: "LoadFlags \<Rightarrow> 's collaborators \<Rightarrow> 's invocation \<Rightarrow> error option \<times> 's invocation" where
  "RunE f env st =
     (case GetDBClient env of
        Some err \<Rightarrow> (Some (Wrapped err ''could not get db client: %+v''), st)
      | None \<Rightarrow>
     (case (if InitDatabase f then UpdateSchema env (store st) else (None, store st)) of
        (Some err, s1) \<Rightarrow> (Some (Wrapped err ''could not migrate db''), st\<lparr>store := s1\<rparr>)
      | (None, s1) \<Rightarrow>
     (case GetConfig env of
        Some err \<Rightarrow> (Some err, st\<lparr>store := s1\<rparr>)
      | None \<Rightarrow>
     (case selectLoaders env (Loaders f) [] of
        Inl err \<Rightarrow> (Some err, st\<lparr>store := s1\<rparr>)
      | Inr loaders \<Rightarrow>
     (case loaderwithmetrics_Load loaders (st\<lparr>store := s1\<rparr>) of
        (st2, errors) \<Rightarrow>
          (let allErrs = (if length errors > 0 then [] @ errors else []);
               st3 = \<lparr>store = RefreshData env (store st2), trace = trace st2 @ [Refreshed]\<rparr>
           in if length allErrs > 0
              then (Some (Failure ''errors were encountered while loading database, see logs for details''), st3)
              else (None, st3)))))))"

section \<open>Auxiliary notions for the proofs\<close>

text \<open>
  A text \<open>x\<close> is inert for a placeholder \<open>old\<close> when replacing \<open>old\<close> in \<open>x\<close> followed by
  a blank and more text leaves \<open>x\<close> as it is and goes on behind it.
\<close>

definition inert :: "string \<Rightarrow> string \<Rightarrow> bool" where
  "inert x old = (\<forall>rest new. rest \<noteq> [] \<and> hd rest = CHR '' '' \<longrightarrow>
      replaceNonEmpty (x @ rest) old new = x @ replaceNonEmpty rest old new)"

definition swap_slot :: "string \<Rightarrow> string \<Rightarrow> string \<Rightarrow> string" where
  "swap_slot old new x = (if x = old then new else x)"

text \<open>The catalog entries that a store does not hold yet.\<close>

definition missingViews :: "PostgresMaterializedView list \<Rightarrow> gorm_db \<Rightarrow> PostgresMaterializedView list" where
  "missingViews pmvs db = filter (\<lambda>pmv. Name pmv \<notin> set (pg_matviews db)) pmvs"

text \<open>
  Two stores for the examples below: an empty database, and one in which the suites of
  the registry and the views of the catalog are in place.
\<close>

definition emptyStore :: gorm_db where
  "emptyStore = \<lparr>pg_matviews = [], suites = [], tables = [], sent = [], faults = []\<rparr>"

definition seededStore :: gorm_db where
  "seededStore =
     \<lparr>pg_matviews = [''prow_test_report_7d_matview'', ''prow_test_analysis_by_variant_14d_matview'',
        ''prow_test_analysis_by_job_14d_matview'', ''prow_test_report_2d_matview''],
      suites = [''openshift-tests'', ''openshift-tests-upgrade'', ''sippy''],
      tables = [], sent = [], faults = []\<rparr>"

text \<open>
  Collaborators for the examples below, over a store that lists the writes made to it:
  every loader appends its name, \<open>reportingLoader\<close> also reports the given errors.
\<close>

definition reportingLoader :: "string \<Rightarrow> error list \<Rightarrow> string list DataLoader" where
  "reportingLoader n errs = \<lparr>LoaderName = n, Load = (\<lambda>s. (s @ [n], errs))\<rparr>"

definition exampleCollaborators :: "error option \<Rightarrow> error list \<Rightarrow> string list collaborators" where
  "exampleCollaborators client prowErrors =
     \<lparr>GetDBClient = client,
      UpdateSchema = (\<lambda>s. (None, s @ [''schema''])),
      GetConfig = None,
      releaseloader_New = reportingLoader ''releases'' [],
      prowLoader = Inr (reportingLoader ''prow'' prowErrors),
      jiraloader_New = reportingLoader ''jira'' [],
      testownershiploader_New = Inr (reportingLoader ''test-mapping'' []),
      bugloader_New = reportingLoader ''bugs'' [],
      RefreshData = (\<lambda>s. s @ [''refresh''])\<rparr>"

definition exampleFlags :: LoadFlags where
  "exampleFlags = \<lparr>InitDatabase = False, Loaders = [''prow'', ''releases'', ''github'']\<rparr>"

section \<open>Facts about the string functions\<close>

lemma HasPrefix_append_self: "HasPrefix (p @ rest) p"
  by (induction p) auto

lemma HasPrefix_hd: "old \<noteq> [] \<Longrightarrow> c \<noteq> hd old \<Longrightarrow> \<not> HasPrefix (c # cs) old"
  by (cases old) auto

lemma HasPrefix_iff: "HasPrefix s p \<longleftrightarrow> (\<exists>rest. s = p @ rest)"
proof (induction s p rule: HasPrefix.induct)
  case (3 c cs p ps)
  then show ?case by auto
qed auto

lemma Contains_barfree:
  "CHR ''|'' \<notin> set s \<Longrightarrow> sub \<noteq> [] \<Longrightarrow> hd sub = CHR ''|'' \<Longrightarrow> \<not> Contains s sub"
  by (induction s) (auto simp: HasPrefix_hd)

lemma replace_skip:
  "CHR ''|'' \<notin> set a \<Longrightarrow> old \<noteq> [] \<Longrightarrow> hd old = CHR ''|'' \<Longrightarrow>
   replaceNonEmpty (a @ rest) old new = a @ replaceNonEmpty rest old new"
  by (induction a) (auto simp: HasPrefix_hd)

lemma replace_hit:
  "old \<noteq> [] \<Longrightarrow> replaceNonEmpty (old @ rest) old new = new @ replaceNonEmpty rest old new"
  by (cases old) (use HasPrefix_append_self [of old rest] in auto)

lemma inert_barfree:
  "CHR ''|'' \<notin> set x \<Longrightarrow> old \<noteq> [] \<Longrightarrow> hd old = CHR ''|'' \<Longrightarrow> inert x old"
  by (simp add: inert_def replace_skip)

lemma inert_keys:
  "inert ''|||BOUNDARY|||'' ''|||START|||''"
  "inert ''|||END|||'' ''|||START|||''"
  "inert ''|||START|||'' ''|||BOUNDARY|||''"
  "inert ''|||END|||'' ''|||BOUNDARY|||''"
  "inert ''|||START|||'' ''|||END|||''"
  "inert ''|||BOUNDARY|||'' ''|||END|||''"
  unfolding inert_def by (auto simp: neq_Nil_conv)

lemma replace_slot:
  assumes "x = old \<or> inert x old" "old \<noteq> []" "rest \<noteq> []" "hd rest = CHR '' ''"
  shows "replaceNonEmpty (x @ rest) old new = swap_slot old new x @ replaceNonEmpty rest old new"
  using assms by (auto simp: replace_hit inert_def swap_slot_def)

subsection \<open>One pass of the substitution loop over the report template\<close>

lemma testReportMatView_slots:
  "testReportMatView = twoHalfWindowReport ''|||START|||'' ''|||BOUNDARY|||'' ''|||END|||''"
  by (simp add: testReportMatView_def twoHalfWindowReport_def)

lemma barfree_report:
  "CHR ''|'' \<notin> set s \<Longrightarrow> CHR ''|'' \<notin> set b \<Longrightarrow> CHR ''|'' \<notin> set e \<Longrightarrow>
   CHR ''|'' \<notin> set (twoHalfWindowReport s b e)"
  by (simp add: twoHalfWindowReport_def)

lemma replace_report:
  assumes "s = old \<or> inert s old" "b = old \<or> inert b old" "e = old \<or> inert e old"
    and "old \<noteq> []" "hd old = CHR ''|''"
  shows "replaceNonEmpty (twoHalfWindowReport s b e) old new =
     twoHalfWindowReport (swap_slot old new s) (swap_slot old new b) (swap_slot old new e)"
  unfolding twoHalfWindowReport_def concat.simps append_assoc
  using assms(4,5)
  by (simp add: replace_skip replace_slot [OF assms(1)] replace_slot [OF assms(2)]
      replace_slot [OF assms(3)] del: append.simps append_Nil2 replaceNonEmpty.simps(2))

lemma slot_ok:
  assumes "old \<in> {''|||START|||'', ''|||BOUNDARY|||'', ''|||END|||''}"
    and "x \<in> {''|||START|||'', ''|||BOUNDARY|||'', ''|||END|||''} \<or> CHR ''|'' \<notin> set x"
  shows "x = old \<or> inert x old"
proof -
  have old: "old \<noteq> []" "hd old = CHR ''|''" using assms(1) by auto
  from assms(2) show ?thesis
  proof
    assume "x \<in> {''|||START|||'', ''|||BOUNDARY|||'', ''|||END|||''}"
    with assms(1) show ?thesis by (elim insertE emptyE) (simp_all add: inert_keys)
  next
    assume "CHR ''|'' \<notin> set x"
    then have "inert x old" using old by (rule inert_barfree)
    then show ?thesis ..
  qed
qed

lemma ReplaceAll_report:
  assumes "old \<in> {''|||START|||'', ''|||BOUNDARY|||'', ''|||END|||''}"
    and "s \<in> {''|||START|||'', ''|||BOUNDARY|||'', ''|||END|||''} \<or> CHR ''|'' \<notin> set s"
    and "b \<in> {''|||START|||'', ''|||BOUNDARY|||'', ''|||END|||''} \<or> CHR ''|'' \<notin> set b"
    and "e \<in> {''|||START|||'', ''|||BOUNDARY|||'', ''|||END|||''} \<or> CHR ''|'' \<notin> set e"
  shows "ReplaceAll (twoHalfWindowReport s b e) old new =
     twoHalfWindowReport (swap_slot old new s) (swap_slot old new b) (swap_slot old new e)"
proof -
  have old: "old \<noteq> []" "hd old = CHR ''|''" using assms(1) by auto
  show ?thesis
    unfolding ReplaceAll_def
    using replace_report [OF slot_ok [OF assms(1,2)] slot_ok [OF assms(1,3)]
        slot_ok [OF assms(1,4)] old] old(1)
    by simp
qed

subsection \<open>The orders in which three pairs can be visited\<close>

lemma perm_Cons:
  assumes "mset (x # xs) = mset ys"
  shows "x \<in> set ys \<and> mset xs = mset (remove1 x ys)"
proof
  show "x \<in> set ys" using mset_eq_setD [OF assms] by auto
  have "mset (remove1 x ys) = mset (x # xs) - {#x#}" by (simp add: assms [symmetric])
  then show "mset xs = mset (remove1 x ys)" by simp
qed

lemma perm2:
  assumes "mset xs = mset [a, b]"
  shows "xs = [a, b] \<or> xs = [b, a]"
proof (cases xs)
  case Nil
  with assms show ?thesis by simp
next
  case (Cons x xs')
  from perm_Cons [OF assms [unfolded Cons]]
  have x: "x = a \<or> x = b" and r: "mset xs' = mset (remove1 x [a, b])" by auto
  from x show ?thesis
  proof
    assume "x = a" with r have "mset xs' = {#b#}" by simp
    then have "xs' = [b]" by (simp add: mset_single_iff_right)
    with Cons \<open>x = a\<close> show ?thesis by simp
  next
    assume "x = b" with r have "mset xs' = {#a#}" by (cases "a = b") simp_all
    then have "xs' = [a]" by (simp add: mset_single_iff_right)
    with Cons \<open>x = b\<close> show ?thesis by simp
  qed
qed

lemma perm3:
  assumes "mset xs = mset [a, b, c]"
  shows "xs \<in> {[a,b,c],[a,c,b],[b,a,c],[b,c,a],[c,a,b],[c,b,a]}"
proof (cases xs)
  case Nil
  with assms show ?thesis by simp
next
  case (Cons x xs')
  from perm_Cons [OF assms [unfolded Cons]]
  have x: "x = a \<or> x = b \<or> x = c" and r: "mset xs' = mset (remove1 x [a, b, c])" by auto
  from x consider "x = a" | "x = b" | "x = c" by blast
  then show ?thesis
  proof cases
    case 1
    with r have "mset xs' = mset [b, c]" by simp
    from perm2 [OF this] Cons 1 show ?thesis by auto
  next
    case 2
    with r have "mset xs' = mset [a, c]" by (cases "a = b") simp_all
    from perm2 [OF this] Cons 2 show ?thesis by auto
  next
    case 3
    with r have "mset xs' = mset [a, b]" by (cases "a = c"; cases "b = c") simp_all
    from perm2 [OF this] Cons 3 show ?thesis by auto
  qed
qed

lemma fold_report_7d:
  assumes "kvs \<in> {[a,b,c],[a,c,b],[b,a,c],[b,c,a],[c,a,b],[c,b,a]}"
    and "a = (''|||START|||'', ''NOW() - INTERVAL '14 DAY'' @ [CHR 0x27])"
      "b = (''|||BOUNDARY|||'', ''NOW() - INTERVAL '7 DAY'' @ [CHR 0x27])"
      "c = (''|||END|||'', ''NOW()'')"
  shows "fold (\<lambda>(k, v) vd. ReplaceAll vd k v) kvs testReportMatView =
    twoHalfWindowReport (''NOW() - INTERVAL '14 DAY'' @ [CHR 0x27])
      (''NOW() - INTERVAL '7 DAY'' @ [CHR 0x27]) ''NOW()''"
  using assms(1) unfolding assms(2-) testReportMatView_slots
  by (elim insertE emptyE) (simp_all add: ReplaceAll_report swap_slot_def)

section \<open>The 7-day report view\<close>

text \<open>
  C3.  For the entry \<^verbatim>\<open>prow_test_report_7d_matview\<close> of the catalog, in whatever order
  the \<^verbatim>\<open>range\<close> over \<open>ReplaceStrings\<close> visits the three pairs: the template is the
  two-half report with the three placeholders in its slots, and the substitution loop
  emits the same report with \<^verbatim>\<open>NOW() - INTERVAL '14 DAY'\<close> as start,
  \<^verbatim>\<open>NOW() - INTERVAL '7 DAY'\<close> as boundary and \<^verbatim>\<open>NOW()\<close> as end, so every occurrence of
  every placeholder is replaced: the previous half runs from 14 days ago to 7 days ago
  and the current half from 7 days ago to now.  None of \<^verbatim>\<open>|||START|||\<close>,
  \<^verbatim>\<open>|||BOUNDARY|||\<close>, \<^verbatim>\<open>|||END|||\<close> occurs in the emitted text.
\<close>

theorem report_7d_substitution:
  assumes "mset (ord (ReplaceStrings (PostgresMatViews ! 0))) = mset (ReplaceStrings (PostgresMatViews ! 0))"
  shows "Name (PostgresMatViews ! 0) = ''prow_test_report_7d_matview''
    \<and> Definition (PostgresMatViews ! 0) =
        twoHalfWindowReport ''|||START|||'' ''|||BOUNDARY|||'' ''|||END|||''
    \<and> replaceStrings ord (PostgresMatViews ! 0) =
        twoHalfWindowReport (''NOW() - INTERVAL '14 DAY'' @ [CHR 0x27])
          (''NOW() - INTERVAL '7 DAY'' @ [CHR 0x27]) ''NOW()''
    \<and> \<not> Contains (replaceStrings ord (PostgresMatViews ! 0)) ''|||START|||''
    \<and> \<not> Contains (replaceStrings ord (PostgresMatViews ! 0)) ''|||BOUNDARY|||''
    \<and> \<not> Contains (replaceStrings ord (PostgresMatViews ! 0)) ''|||END|||''"
proof -
  let ?pmv = "PostgresMatViews ! 0"
  let ?out = "twoHalfWindowReport (''NOW() - INTERVAL '14 DAY'' @ [CHR 0x27])
          (''NOW() - INTERVAL '7 DAY'' @ [CHR 0x27]) ''NOW()''"
  have pmv: "Name ?pmv = ''prow_test_report_7d_matview''" "Definition ?pmv = testReportMatView"
    "ReplaceStrings ?pmv = [(''|||START|||'', ''NOW() - INTERVAL '14 DAY'' @ [CHR 0x27]),
         (''|||BOUNDARY|||'', ''NOW() - INTERVAL '7 DAY'' @ [CHR 0x27]),
         (''|||END|||'', ''NOW()'')]"
    by (simp_all add: PostgresMatViews_def)
  have out: "replaceStrings ord ?pmv = ?out"
    unfolding replaceStrings_def pmv(2,3)
    by (rule fold_report_7d [OF perm3 [OF assms [unfolded pmv(3)]] refl refl refl])
  have "CHR ''|'' \<notin> set ?out"
    by (rule barfree_report) simp_all
  then have "\<not> Contains ?out ''|||START|||''" "\<not> Contains ?out ''|||BOUNDARY|||''"
    "\<not> Contains ?out ''|||END|||''"
    by (simp_all add: Contains_barfree)
  with pmv(1,2) out show ?thesis
    by (simp only: testReportMatView_slots simp_thms)
qed

theorem report_7d_substitution_witness:
  "mset (rev (ReplaceStrings (PostgresMatViews ! 0))) = mset (ReplaceStrings (PostgresMatViews ! 0))
   \<and> replaceStrings rev (PostgresMatViews ! 0) =
        twoHalfWindowReport (''NOW() - INTERVAL '14 DAY'' @ [CHR 0x27])
          (''NOW() - INTERVAL '7 DAY'' @ [CHR 0x27]) ''NOW()''
   \<and> \<not> Contains (replaceStrings rev (PostgresMatViews ! 0)) ''|||END|||''"
proof -
  have h: "mset (rev (ReplaceStrings (PostgresMatViews ! 0))) = mset (ReplaceStrings (PostgresMatViews ! 0))"
    by simp
  from report_7d_substitution [of rev, OF h] h show ?thesis by blast
qed

section \<open>LastID\<close>

lemma nextFault_keeps:
  "nextFault db = (f, db1) \<Longrightarrow>
     pg_matviews db1 = pg_matviews db \<and> suites db1 = suites db \<and> tables db1 = tables db
     \<and> sent db1 = sent db"
  by (auto simp: nextFault_def split: list.splits)

lemma nextFault_none: "faults db = [] \<Longrightarrow> nextFault db = (None, db)"
  by (simp add: nextFault_def)

text \<open>
  C10.  \<^verbatim>\<open>LastID\<close> returns an \<^verbatim>\<open>int\<close> and nothing else.  Whenever the ordered id query
  fails, the result is 0; it is 0 as well for a table that does not exist and for a
  table without rows; and when the query finds an id, that id is the result.
\<close>

theorem LastID_total:
  "(\<forall>e db1. scanLastID table db = (Inl e, db1) \<longrightarrow> fst (LastID c table db) = 0)
   \<and> (map_of (tables db) table = None \<longrightarrow> fst (LastID c table db) = 0)
   \<and> (map_of (tables db) table = Some [] \<longrightarrow> fst (LastID c table db) = 0)
   \<and> (\<forall>i db1. scanLastID table db = (Inr (Some i), db1) \<longrightarrow> fst (LastID c table db) = i)"
proof -
  obtain f db1 where nf: "nextFault db = (f, db1)" by (cases "nextFault db")
  from nextFault_keeps [OF nf] have t: "tables db1 = tables db" by simp
  show ?thesis
    by (cases f) (auto simp: LastID_def scanLastID_def nf t split: option.splits)
qed

theorem LastID_total_witness:
  "scanLastID ''prow_job_runs''
      \<lparr>pg_matviews = [], suites = [], tables = [(''prow_job_runs'', [3, 9, 4]), (''bugs'', [])],
       sent = [], faults = [Some ''connection reset'']\<rparr>
    = (Inl (Failure ''connection reset''),
      \<lparr>pg_matviews = [], suites = [], tables = [(''prow_job_runs'', [3, 9, 4]), (''bugs'', [])],
       sent = [], faults = []\<rparr>)
   \<and> fst (LastID \<lparr>DB = ''postgresql://sippy'', BatchSize = 1024\<rparr> ''prow_job_runs''
      \<lparr>pg_matviews = [], suites = [], tables = [(''prow_job_runs'', [3, 9, 4]), (''bugs'', [])],
       sent = [], faults = [Some ''connection reset'']\<rparr>) = 0
   \<and> map_of [(''prow_job_runs'', [3, 9, 4]), (''bugs'', [])] ''tests'' = None
   \<and> fst (LastID \<lparr>DB = ''postgresql://sippy'', BatchSize = 1024\<rparr> ''tests''
      \<lparr>pg_matviews = [], suites = [], tables = [(''prow_job_runs'', [3, 9, 4]), (''bugs'', [])],
       sent = [], faults = []\<rparr>) = 0
   \<and> map_of [(''prow_job_runs'', [3, 9, 4]), (''bugs'', [])] ''bugs'' = Some []
   \<and> fst (LastID \<lparr>DB = ''postgresql://sippy'', BatchSize = 1024\<rparr> ''bugs''
      \<lparr>pg_matviews = [], suites = [], tables = [(''prow_job_runs'', [3, 9, 4]), (''bugs'', [])],
       sent = [], faults = []\<rparr>) = 0
   \<and> fst (LastID \<lparr>DB = ''postgresql://sippy'', BatchSize = 1024\<rparr> ''prow_job_runs''
      \<lparr>pg_matviews = [], suites = [], tables = [(''prow_job_runs'', [3, 9, 4]), (''bugs'', [])],
       sent = [], faults = []\<rparr>) = 9"
  using
    LastID_total [of "''prow_job_runs''"
      "\<lparr>pg_matviews = [], suites = [], tables = [(''prow_job_runs'', [3, 9, 4]), (''bugs'', [])],
       sent = [], faults = [Some ''connection reset'']\<rparr>" "\<lparr>DB = ''postgresql://sippy'', BatchSize = 1024\<rparr>"]
    LastID_total [of "''tests''"
      "\<lparr>pg_matviews = [], suites = [], tables = [(''prow_job_runs'', [3, 9, 4]), (''bugs'', [])],
       sent = [], faults = []\<rparr>" "\<lparr>DB = ''postgresql://sippy'', BatchSize = 1024\<rparr>"]
    LastID_total [of "''bugs''"
      "\<lparr>pg_matviews = [], suites = [], tables = [(''prow_job_runs'', [3, 9, 4]), (''bugs'', [])],
       sent = [], faults = []\<rparr>" "\<lparr>DB = ''postgresql://sippy'', BatchSize = 1024\<rparr>"]
    LastID_total [of "''prow_job_runs''"
      "\<lparr>pg_matviews = [], suites = [], tables = [(''prow_job_runs'', [3, 9, 4]), (''bugs'', [])],
       sent = [], faults = []\<rparr>" "\<lparr>DB = ''postgresql://sippy'', BatchSize = 1024\<rparr>"]
  by (simp add: scanLastID_def nextFault_def)

section \<open>The batch size of a client\<close>

lemma CreateInBatches_concat: "concat (CreateInBatches rows n) = rows \<or> n = 0"
proof (induction rows n rule: CreateInBatches.induct)
  case (1 rows batchSize)
  then show ?case by (subst CreateInBatches.simps) auto
qed

lemma CreateInBatches_length:
  "\<forall>b \<in> set (CreateInBatches rows n). b \<noteq> [] \<and> length b \<le> n"
proof (induction rows n rule: CreateInBatches.induct)
  case (1 rows batchSize)
  show ?case
  proof (cases "batchSize = 0 \<or> rows = []")
    case True
    then show ?thesis by (subst CreateInBatches.simps) simp
  next
    case False
    with "1.IH" show ?thesis by (subst CreateInBatches.simps) auto
  qed
qed

lemma New_Inr:
  "New ord dsn db = (Inr c, db') \<Longrightarrow> c = \<lparr>DB = dsn, BatchSize = 1024\<rparr>"
  by (auto simp: New_def split: prod.splits option.splits)

text \<open>
  C9.  A client that \<^verbatim>\<open>New\<close> returns has the batch size 1024, which is at most the
  2^16 rows that the storage engine takes in one insert.  A batch write with that batch
  size cuts any rows into sub-batches that put the rows back together when joined, none
  empty and none longer than the batch size, hence none longer than 2^16.
\<close>

theorem New_BatchSize:
  assumes "New ord dsn db = (Inr c, db')"
  shows "BatchSize c = 1024 \<and> BatchSize c \<le> 2 ^ 16
    \<and> (\<forall>rows. concat (CreateInBatches rows (nat (BatchSize c))) = rows
          \<and> (\<forall>b \<in> set (CreateInBatches rows (nat (BatchSize c))).
                b \<noteq> [] \<and> int (length b) \<le> BatchSize c \<and> length b \<le> 2 ^ 16))"
proof -
  from New_Inr [OF assms] have c: "BatchSize c = 1024" by simp
  have "concat (CreateInBatches rows 1024) = rows" for rows :: "'a list"
    using CreateInBatches_concat [of rows 1024] by simp
  moreover have "b \<noteq> [] \<and> length b \<le> 1024" if "b \<in> set (CreateInBatches rows 1024)"
    for b rows :: "'a list"
    using CreateInBatches_length [of rows 1024] that by blast
  ultimately show ?thesis unfolding c by (auto simp: order_trans [of _ 1024 65536])
qed

theorem New_BatchSize_witness:
  "New id ''postgresql://sippy'' seededStore
      = (Inr \<lparr>DB = ''postgresql://sippy'', BatchSize = 1024\<rparr>, seededStore)
   \<and> BatchSize \<lparr>DB = ''postgresql://sippy'', BatchSize = 1024\<rparr> \<le> 2 ^ 16
   \<and> concat (CreateInBatches ''abcde'' (nat (BatchSize \<lparr>DB = ''postgresql://sippy'', BatchSize = 1024\<rparr>))) = ''abcde''"
proof -
  have h: "New id ''postgresql://sippy'' seededStore
      = (Inr \<lparr>DB = ''postgresql://sippy'', BatchSize = 1024\<rparr>, seededStore)"
    by (simp add: New_def Open_def migratedModels_def AutoMigrate_def nextFault_def
        populateTestSuitesInDB_def testSuitePrefixes_def firstSuite_def
        createPostgresMaterializedViews_def PostgresMatViews_def countMatViews_def
        seededStore_def)
  from New_BatchSize [OF h] h show ?thesis by blast
qed

section \<open>Splitting a raw test name\<close>

lemma longest_mem: "longest p ps \<in> set (p # ps)"
  unfolding longest_def by (induction ps arbitrary: p) auto

lemma longest_max: "\<forall>q \<in> set (p # ps). length q \<le> length (longest p ps)"
  unfolding longest_def
proof (induction ps arbitrary: p)
  case Nil
  show ?case by simp
next
  case (Cons a ps)
  have mono: "length p \<le> length (fold (\<lambda>q best. if length best < length q then q else best) ps p)"
    for p
    using Cons.IH [of p] by simp
  show ?case
    using Cons.IH [of a] Cons.IH [of p] mono [of p] mono [of a]
    by (auto intro: order_trans)
qed

lemma HasPrefix_dot: "HasPrefix raw (s @ ''.'') \<Longrightarrow> raw = s @ ''.'' @ drop (length s + 1) raw"
  by (auto simp: HasPrefix_iff)

text \<open>
  C7.  With the registry of this package, a raw name made of a registered suite, a dot
  and a remainder is split into that suite and the remainder.  Over any registry, a
  suite that is returned is a registered one, the raw name is that suite, a dot and the
  returned name, and no registered suite that matches is longer; and when no
  registered suite followed by a dot begins the raw name, the name comes back
  unchanged and without a suite.
\<close>

theorem normalizeTestName_registry:
  "(p \<in> set testSuitePrefixes \<longrightarrow>
      normalizeTestName testSuitePrefixes (p @ ''.'' @ rest) = (Some p, rest))
   \<and> (normalizeTestName registry raw = (Some s, name) \<longrightarrow>
        s \<in> set registry \<and> raw = s @ ''.'' @ name
        \<and> (\<forall>q \<in> set registry. HasPrefix raw (q @ ''.'') \<longrightarrow> length q \<le> length s))
   \<and> ((\<forall>q \<in> set registry. \<not> HasPrefix raw (q @ ''.'')) \<longrightarrow>
        normalizeTestName registry raw = (None, raw))"
proof -
  have A: "normalizeTestName testSuitePrefixes (p @ ''.'' @ rest) = (Some p, rest)"
    if "p \<in> set testSuitePrefixes"
  proof -
    from that consider "p = ''openshift-tests''" | "p = ''openshift-tests-upgrade''" | "p = ''sippy''"
      by (auto simp: testSuitePrefixes_def)
    then show ?thesis
      by cases
        (simp_all add: normalizeTestName_def matchingSuites_def testSuitePrefixes_def longest_def)
  qed
  have B: "s \<in> set registry \<and> raw = s @ ''.'' @ name
        \<and> (\<forall>q \<in> set registry. HasPrefix raw (q @ ''.'') \<longrightarrow> length q \<le> length s)"
    if a: "normalizeTestName registry raw = (Some s, name)"
  proof -
    from a obtain m ms where ms: "matchingSuites registry raw = m # ms"
      and s: "s = longest m ms" and name: "name = drop (length s + 1) raw"
      by (auto simp: normalizeTestName_def split: list.splits)
    have sub: "set (m # ms) = {q \<in> set registry. HasPrefix raw (q @ ''.'')}"
      unfolding ms [symmetric] matchingSuites_def by auto
    have "s \<in> set (m # ms)" unfolding s by (rule longest_mem)
    with sub have s_in: "s \<in> set registry" and pre: "HasPrefix raw (s @ ''.'')" by auto
    have "\<forall>q \<in> set registry. HasPrefix raw (q @ ''.'') \<longrightarrow> length q \<le> length s"
      using longest_max [of m ms] sub unfolding s by blast
    with s_in HasPrefix_dot [OF pre] name show ?thesis by simp
  qed
  have C: "normalizeTestName registry raw = (None, raw)"
    if "\<forall>q \<in> set registry. \<not> HasPrefix raw (q @ ''.'')"
  proof -
    from that have "matchingSuites registry raw = []"
      by (auto simp: matchingSuites_def filter_empty_conv)
    then show ?thesis by (simp add: normalizeTestName_def)
  qed
  from A B C show ?thesis by blast
qed

theorem normalizeTestName_registry_witness:
  "''openshift-tests'' \<in> set testSuitePrefixes
   \<and> normalizeTestName testSuitePrefixes ''openshift-tests.Some Test Name''
        = (Some ''openshift-tests'', ''Some Test Name'')
   \<and> normalizeTestName [''openshift-tests'', ''openshift-tests-upgrade'', ''sippy'']
        ''openshift-tests-upgrade.Some Test Name''
        = (Some ''openshift-tests-upgrade'', ''Some Test Name'')
   \<and> ''openshift-tests-upgrade'' \<in> set [''openshift-tests'', ''openshift-tests-upgrade'', ''sippy'']
   \<and> matchingSuites testSuitePrefixes ''Some Test Name'' = []
   \<and> normalizeTestName testSuitePrefixes ''Some Test Name'' = (None, ''Some Test Name'')"
proof -
  have a: "''openshift-tests'' \<in> set testSuitePrefixes"
    by (simp add: testSuitePrefixes_def)
  have b: "normalizeTestName [''openshift-tests'', ''openshift-tests-upgrade'', ''sippy'']
        ''openshift-tests-upgrade.Some Test Name''
        = (Some ''openshift-tests-upgrade'', ''Some Test Name'')"
    by (simp add: normalizeTestName_def matchingSuites_def longest_def)
  have c: "\<forall>q \<in> set testSuitePrefixes. \<not> HasPrefix ''Some Test Name'' (q @ ''.'')"
    by (simp add: testSuitePrefixes_def)
  have d: "matchingSuites testSuitePrefixes ''Some Test Name'' = []"
    by (simp add: matchingSuites_def testSuitePrefixes_def)
  from normalizeTestName_registry [of "''openshift-tests''" "''Some Test Name''"
      "[''openshift-tests'', ''openshift-tests-upgrade'', ''sippy'']"
      "''openshift-tests-upgrade.Some Test Name''" "''openshift-tests-upgrade''" "''Some Test Name''"]
    normalizeTestName_registry [of "''sippy''" "[]" testSuitePrefixes "''Some Test Name''" "[]" "[]"]
    a b c d
  show ?thesis by simp
qed

section \<open>The load command\<close>

lemma coordinator_store:
  "store (fst (loaderwithmetrics_Load lds st)) = fold (\<lambda>ld s. fst (Load ld s)) lds (store st)"
proof (induction lds arbitrary: st)
  case Nil
  show ?case by simp
next
  case (Cons ld lds)
  obtain s1 errs where l: "Load ld (store st) = (s1, errs)" by (cases "Load ld (store st)")
  let ?st1 = "\<lparr>store = s1, trace = trace st @ [Loaded (LoaderName ld)]\<rparr>"
  obtain st2 errs2 where r: "loaderwithmetrics_Load lds ?st1 = (st2, errs2)"
    by (cases "loaderwithmetrics_Load lds ?st1")
  from Cons.IH [of ?st1] show ?case by (simp add: l r)
qed


lemma RunE_loaders_run:
  assumes "GetDBClient env = None"
    and "(if InitDatabase f then UpdateSchema env (store st) else (None, store st)) = (None, s1)"
    and "GetConfig env = None"
    and "selectLoaders env (Loaders f) [] = Inr loaders"
  shows "RunE f env st =
    (if snd (loaderwithmetrics_Load loaders (st\<lparr>store := s1\<rparr>)) \<noteq> []
     then Some (Failure ''errors were encountered while loading database, see logs for details'')
     else None,
     \<lparr>store = RefreshData env (store (fst (loaderwithmetrics_Load loaders (st\<lparr>store := s1\<rparr>)))),
      trace = trace (fst (loaderwithmetrics_Load loaders (st\<lparr>store := s1\<rparr>))) @ [Refreshed]\<rparr>)"
  unfolding RunE_def assms
  by (cases "loaderwithmetrics_Load loaders (st\<lparr>store := s1\<rparr>)") (simp add: Let_def)


text \<open>
  C4, as the code has it.  When the client is obtained, the schema update (if asked for)
  succeeds, the configuration is read and every selected loader is constructed, so that
  the loaders run, then the invocation returns a failure exactly when the \<^verbatim>\<open>Errors()\<close>
  of the coordinator are not empty after its \<^verbatim>\<open>Load()\<close>; and, failing or not, the store
  it leaves is the store after the \<^verbatim>\<open>Load\<close> of every loader in turn, followed by the
  refresh: nothing that a loader wrote is undone.
\<close>

theorem RunE_failure_iff_errors:
  assumes "GetDBClient env = None"
    and "(if InitDatabase f then UpdateSchema env (store st) else (None, store st)) = (None, s1)"
    and "GetConfig env = None"
    and "selectLoaders env (Loaders f) [] = Inr loaders"
  shows "(fst (RunE f env st) \<noteq> None
           \<longleftrightarrow> snd (loaderwithmetrics_Load loaders (st\<lparr>store := s1\<rparr>)) \<noteq> [])
    \<and> store (snd (RunE f env st)) = RefreshData env (fold (\<lambda>ld s. fst (Load ld s)) loaders s1)"
  unfolding RunE_loaders_run [OF assms] by (simp add: coordinator_store)

theorem RunE_failure_iff_errors_witness:
  "GetDBClient (exampleCollaborators None [Failure ''no credentials'']) = None
   \<and> GetConfig (exampleCollaborators None [Failure ''no credentials'']) = None
   \<and> selectLoaders (exampleCollaborators None [Failure ''no credentials'']) (Loaders exampleFlags) []
       = Inr [reportingLoader ''prow'' [Failure ''no credentials''], reportingLoader ''releases'' []]
   \<and> snd (loaderwithmetrics_Load
        [reportingLoader ''prow'' [Failure ''no credentials''], reportingLoader ''releases'' []]
        \<lparr>store = [''old''], trace = []\<rparr>) \<noteq> []
   \<and> fst (RunE exampleFlags (exampleCollaborators None [Failure ''no credentials''])
        \<lparr>store = [''old''], trace = []\<rparr>) \<noteq> None
   \<and> store (snd (RunE exampleFlags (exampleCollaborators None [Failure ''no credentials''])
        \<lparr>store = [''old''], trace = []\<rparr>)) = [''old'', ''prow'', ''releases'', ''refresh'']"
proof -
  let ?env = "exampleCollaborators None [Failure ''no credentials'']"
  let ?st = "\<lparr>store = [''old''], trace = []\<rparr> :: string list invocation"
  let ?lds = "[reportingLoader ''prow'' [Failure ''no credentials''], reportingLoader ''releases'' []]"
  have a: "GetDBClient ?env = None" "GetConfig ?env = None"
    by (simp_all add: exampleCollaborators_def)
  have b: "(if InitDatabase exampleFlags then UpdateSchema ?env (store ?st) else (None, store ?st))
      = (None, [''old''])"
    by (simp add: exampleFlags_def)
  have c: "selectLoaders ?env (Loaders exampleFlags) [] = Inr ?lds"
    by (simp add: exampleFlags_def exampleCollaborators_def)
  have d: "snd (loaderwithmetrics_Load ?lds ?st) \<noteq> []"
    by (simp add: reportingLoader_def)
  have e: "RefreshData ?env (fold (\<lambda>ld s. fst (Load ld s)) ?lds [''old''])
      = [''old'', ''prow'', ''releases'', ''refresh'']"
    by (simp add: reportingLoader_def exampleCollaborators_def)
  from RunE_failure_iff_errors [OF a(1) b a(2) c] a c d e show ?thesis by simp
qed

text \<open>
  C4 as it was stated fails when set-up fails: with a client that cannot be
  obtained the invocation returns a failure, no loader has run, and the loaders it
  would have selected report no error.
\<close>

theorem RunE_fails_without_loader_errors:
  "fst (RunE exampleFlags (exampleCollaborators (Some (Failure ''connection refused'')) [])
        \<lparr>store = [''old''], trace = []\<rparr>) \<noteq> None
   \<and> snd (RunE exampleFlags (exampleCollaborators (Some (Failure ''connection refused'')) [])
        \<lparr>store = [''old''], trace = []\<rparr>) = \<lparr>store = [''old''], trace = []\<rparr>
   \<and> selectLoaders (exampleCollaborators (Some (Failure ''connection refused'')) [])
        (Loaders exampleFlags) []
       = Inr [reportingLoader ''prow'' [], reportingLoader ''releases'' []]
   \<and> snd (loaderwithmetrics_Load [reportingLoader ''prow'' [], reportingLoader ''releases'' []]
        \<lparr>store = [''old''], trace = []\<rparr>) = []"
  by (simp add: RunE_def exampleCollaborators_def exampleFlags_def reportingLoader_def)



section \<open>Creating the materialized views\<close>

lemma nextFault_faults:
  "nextFault db = (f, db1) \<Longrightarrow>
     set (faults db1) \<subseteq> set (faults db) \<and> (\<forall>msg. f = Some msg \<longrightarrow> Some msg \<in> set (faults db))"
  by (auto simp: nextFault_def split: list.splits)

lemma drop_length_append: "drop (length p) (p @ x) = x"
  by simp

lemma createdViewName_createStatement:
  assumes "CHR '' '' \<notin> set name"
  shows "createdViewName (createStatement name vd) = Some name"
proof -
  let ?p = "''CREATE MATERIALIZED VIEW ''"
  have stmt: "createStatement name vd = ?p @ (name @ CHR '' '' # (''AS '' @ vd))"
    by (simp add: createStatement_def)
  have "takeWhile (\<lambda>c. c \<noteq> CHR '' '') (name @ CHR '' '' # (''AS '' @ vd)) = name"
    using assms by (auto simp: takeWhile_tail)
  moreover have "drop (length ?p) (?p @ (name @ CHR '' '' # (''AS '' @ vd)))
      = name @ CHR '' '' # (''AS '' @ vd)"
    by (rule drop_length_append)
  moreover have "HasPrefix (?p @ (name @ CHR '' '' # (''AS '' @ vd))) ?p"
    by (rule HasPrefix_append_self)
  ultimately show ?thesis
    unfolding createdViewName_def stmt by (simp only: if_True)
qed

lemma countMatViews_result:
  assumes "countMatViews name db = (r, db1)"
  shows "pg_matviews db1 = pg_matviews db \<and> suites db1 = suites db \<and> sent db1 = sent db
    \<and> tables db1 = tables db \<and> set (faults db1) \<subseteq> set (faults db)
    \<and> ((\<exists>msg. r = Inl (Failure msg) \<and> Some msg \<in> set (faults db))
        \<or> r = Inr (int (count_list (pg_matviews db) name)))"
proof -
  obtain f d where nf: "nextFault db = (f, d)" by (cases "nextFault db")
  from nextFault_keeps [OF nf] nextFault_faults [OF nf] assms show ?thesis
    by (cases f) (auto simp: countMatViews_def nf)
qed

lemma Exec_create_result:
  assumes "Exec (createStatement name vd) db = (r, db')" and "CHR '' '' \<notin> set name"
  shows "sent db' = sent db @ [createStatement name vd] \<and> suites db' = suites db
    \<and> tables db' = tables db \<and> set (faults db') \<subseteq> set (faults db)
    \<and> ((\<exists>msg. r = Some (Failure msg) \<and> Some msg \<in> set (faults db)
            \<and> pg_matviews db' = pg_matviews db)
        \<or> (r = Some (AlreadyExists name) \<and> name \<in> set (pg_matviews db)
            \<and> pg_matviews db' = pg_matviews db)
        \<or> (r = None \<and> name \<notin> set (pg_matviews db)
            \<and> pg_matviews db' = pg_matviews db @ [name]))"
proof -
  let ?db = "db\<lparr>sent := sent db @ [createStatement name vd]\<rparr>"
  obtain f d where nf: "nextFault ?db = (f, d)" by (cases "nextFault ?db")
  from nextFault_keeps [OF nf] nextFault_faults [OF nf] assms(1) show ?thesis
    by (cases f)
      (auto simp: Exec_def nf createdViewName_createStatement [OF assms(2)] split: if_splits)
qed

lemma Exec_create_nofault:
  assumes "faults db = []" and "CHR '' '' \<notin> set name" and "name \<notin> set (pg_matviews db)"
  shows "Exec (createStatement name vd) db
    = (None, db\<lparr>pg_matviews := pg_matviews db @ [name],
                sent := sent db @ [createStatement name vd]\<rparr>)"
  using assms by (simp add: Exec_def nextFault_def createdViewName_createStatement)

lemma countMatViews_nofault:
  "faults db = [] \<Longrightarrow> countMatViews name db = (Inr (int (count_list (pg_matviews db) name)), db)"
  by (simp add: countMatViews_def nextFault_def)

lemma catalog_names:
  "distinct (map Name PostgresMatViews)"
  "\<forall>pmv \<in> set PostgresMatViews. CHR '' '' \<notin> set (Name pmv)"
  by (simp_all add: PostgresMatViews_def)

lemma createViewsLoop_result:
  assumes "createViewsLoop ord ps db = (r, db')" and "\<forall>p \<in> set ps. CHR '' '' \<notin> set (Name p)"
  shows "(r = None \<or> (\<exists>msg. r = Some (Failure msg) \<and> Some msg \<in> set (faults db)))
    \<and> suites db' = suites db \<and> tables db' = tables db
    \<and> (\<exists>new. sent db' = sent db @ map (\<lambda>p. createStatement (Name p) (replaceStrings ord p)) new
          \<and> set new \<subseteq> set (missingViews ps db))
    \<and> (\<exists>made. pg_matviews db' = pg_matviews db @ map Name made
          \<and> set made \<subseteq> set (missingViews ps db))"
  using assms
proof (induction ps arbitrary: db)
  case Nil
  then show ?case by simp
next
  case (Cons p ps)
  let ?stmt = "\<lambda>p. createStatement (Name p) (replaceStrings ord p)"
  have sp: "CHR '' '' \<notin> set (Name p)" and sps: "\<forall>p \<in> set ps. CHR '' '' \<notin> set (Name p)"
    using Cons.prems(2) by simp_all
  obtain rc db1 where c: "countMatViews (Name p) db = (rc, db1)"
    by (cases "countMatViews (Name p) db")
  note c1 = countMatViews_result [OF c]
  have mono: "set (missingViews ps d) \<subseteq> set (missingViews (p # ps) db)"
    if "set (pg_matviews db) \<subseteq> set (pg_matviews d)" for d
    using that by (auto simp: missingViews_def)
  show ?case
  proof (cases rc)
    case (Inl e)
    with Cons.prems(1) c have "r = Some e" "db' = db1" by simp_all
    with c1 Inl show ?thesis by auto
  next
    case (Inr cnt)
    with c1 have cnt: "cnt = int (count_list (pg_matviews db) (Name p))" by simp
    show ?thesis
    proof (cases "cnt = 0")
      case False
      with Cons.prems(1) c Inr have rec: "createViewsLoop ord ps db1 = (r, db')" by simp
      from c1 have "set (pg_matviews db) \<subseteq> set (pg_matviews db1)" by simp
      from Cons.IH [OF rec sps] c1 mono [OF this] show ?thesis
        by (simp only:) blast
    next
      case True
      with cnt have missing: "Name p \<notin> set (pg_matviews db)"
        by (simp add: count_list_0_iff)
      then have pm: "p \<in> set (missingViews (p # ps) db)" by (simp add: missingViews_def)
      obtain re db2 where e: "Exec (?stmt p) db1 = (re, db2)" by (cases "Exec (?stmt p) db1")
      note e1 = Exec_create_result [OF e sp]
      from missing c1 have m1: "Name p \<notin> set (pg_matviews db1)" by simp
      show ?thesis
      proof (cases re)
        case (Some err)
        with Cons.prems(1) c Inr True e have res: "r = Some err" "db' = db2" by simp_all
        from e1 m1 Some obtain msg where msg: "err = Failure msg" "Some msg \<in> set (faults db1)"
          and pg: "pg_matviews db2 = pg_matviews db1" by auto
        have "sent db' = sent db @ map ?stmt [p]" using e1 c1 res by simp
        moreover have "pg_matviews db' = pg_matviews db @ map Name []" using pg c1 res by simp
        moreover have "set [p] \<subseteq> set (missingViews (p # ps) db)" using pm by simp
        moreover have "set [] \<subseteq> set (missingViews (p # ps) db)" by simp
        moreover have "r = Some (Failure msg)" "Some msg \<in> set (faults db)"
          using res msg c1 by auto
        moreover have "suites db' = suites db" "tables db' = tables db" using e1 c1 res by simp_all
        ultimately show ?thesis by blast
      next
        case None
        with Cons.prems(1) c Inr True e have rec: "createViewsLoop ord ps db2 = (r, db')" by simp
        from e1 None have pg: "pg_matviews db2 = pg_matviews db1 @ [Name p]" by auto
        with c1 have sub: "set (pg_matviews db) \<subseteq> set (pg_matviews db2)" by auto
        note ih = Cons.IH [OF rec sps]
        from ih obtain new where new: "sent db' = sent db2 @ map ?stmt new"
          "set new \<subseteq> set (missingViews ps db2)" by blast
        from ih obtain made where made: "pg_matviews db' = pg_matviews db2 @ map Name made"
          "set made \<subseteq> set (missingViews ps db2)" by blast
        have "sent db' = sent db @ map ?stmt (p # new)" using new(1) e1 c1 by simp
        moreover have "set (p # new) \<subseteq> set (missingViews (p # ps) db)"
          using new(2) mono [OF sub] pm by auto
        moreover have "pg_matviews db' = pg_matviews db @ map Name (p # made)"
          using made(1) pg c1 by simp
        moreover have "set (p # made) \<subseteq> set (missingViews (p # ps) db)"
          using made(2) mono [OF sub] pm by auto
        moreover have "r = None \<or> (\<exists>msg. r = Some (Failure msg) \<and> Some msg \<in> set (faults db))"
          using ih e1 c1 by blast
        moreover have "suites db' = suites db" "tables db' = tables db" using ih e1 c1 by simp_all
        ultimately show ?thesis by blast
      qed
    qed
  qed
qed

lemma createViewsLoop_nofault:
  assumes "faults db = []" and "distinct (map Name ps)"
    and "\<forall>p \<in> set ps. CHR '' '' \<notin> set (Name p)"
  shows "createViewsLoop ord ps db =
    (None, db\<lparr>pg_matviews := pg_matviews db @ map Name (missingViews ps db),
               sent := sent db @ map (\<lambda>p. createStatement (Name p) (replaceStrings ord p))
                                  (missingViews ps db)\<rparr>)"
  using assms
proof (induction ps arbitrary: db)
  case Nil
  then show ?case by (simp add: missingViews_def)
next
  case (Cons p ps)
  let ?stmt = "\<lambda>p. createStatement (Name p) (replaceStrings ord p)"
  have d: "distinct (map Name ps)" and sps: "\<forall>p \<in> set ps. CHR '' '' \<notin> set (Name p)"
    and sp: "CHR '' '' \<notin> set (Name p)"
    using Cons.prems by auto
  have fresh: "\<forall>q \<in> set ps. Name q \<noteq> Name p"
    using Cons.prems(2) by (metis distinct.simps(2) image_eqI list.simps(9) list.set_map)
  note c = countMatViews_nofault [OF Cons.prems(1), of "Name p"]
  show ?case
  proof (cases "Name p \<in> set (pg_matviews db)")
    case True
    then have "count_list (pg_matviews db) (Name p) \<noteq> 0" by (simp add: count_list_0_iff)
    moreover have "missingViews (p # ps) db = missingViews ps db"
      using True by (simp add: missingViews_def)
    ultimately show ?thesis using Cons.IH [OF Cons.prems(1) d sps] c by simp
  next
    case False
    let ?db2 = "db\<lparr>pg_matviews := pg_matviews db @ [Name p], sent := sent db @ [?stmt p]\<rparr>"
    have cnt: "count_list (pg_matviews db) (Name p) = 0" using False by (simp add: count_list_0_iff)
    have e: "Exec (?stmt p) db = (None, ?db2)"
      by (rule Exec_create_nofault [OF Cons.prems(1) sp False])
    have f2: "faults ?db2 = []" using Cons.prems(1) by simp
    have "missingViews ps ?db2 = missingViews ps db"
      unfolding missingViews_def using fresh by (intro filter_cong) auto
    moreover have "missingViews (p # ps) db = p # missingViews ps db"
      using False by (simp add: missingViews_def)
    ultimately show ?thesis using Cons.IH [OF f2 d sps] c cnt e by simp
  qed
qed

lemma createPostgresMaterializedViews_nofault:
  assumes "faults db = []"
  shows "createPostgresMaterializedViews ord db =
    (None, db\<lparr>pg_matviews := pg_matviews db @ map Name (missingViews PostgresMatViews db),
               sent := sent db @ map (\<lambda>p. createStatement (Name p) (replaceStrings ord p))
                                  (missingViews PostgresMatViews db)\<rparr>)"
  unfolding createPostgresMaterializedViews_def
  by (rule createViewsLoop_nofault [OF assms catalog_names])

lemma missingViews_none:
  "(\<forall>pmv \<in> set ps. Name pmv \<in> set (pg_matviews db)) \<Longrightarrow> missingViews ps db = []"
  by (simp add: missingViews_def filter_empty_conv)

lemma createPostgresMaterializedViews_fixed:
  assumes "faults db = []" and "\<forall>pmv \<in> set PostgresMatViews. Name pmv \<in> set (pg_matviews db)"
  shows "createPostgresMaterializedViews ord db = (None, db)"
  using createPostgresMaterializedViews_nofault [OF assms(1), of ord] missingViews_none [OF assms(2)]
  by simp

lemma createPostgresMaterializedViews_complete:
  assumes "faults db = []"
  shows "faults (snd (createPostgresMaterializedViews ord db)) = []
    \<and> (\<forall>pmv \<in> set PostgresMatViews.
          Name pmv \<in> set (pg_matviews (snd (createPostgresMaterializedViews ord db))))"
  unfolding createPostgresMaterializedViews_nofault [OF assms]
  using assms by (auto simp: missingViews_def)

text \<open>
  C1.  Whatever the store and whatever statements fail, \<^verbatim>\<open>createPostgresMaterializedViews\<close>
  never returns the error of creating a view that exists, and every statement it sends
  creates a catalog entry that the store did not hold: for an entry that exists no
  create is sent.  When all entries exist, nothing is sent, the catalog of views stays
  as it is, and the result is nil unless a statement failed for a reason of its own.
  When no statement fails the result is nil, and after the first run every further
  run returns nil and leaves the store as it found it.
\<close>

theorem createPostgresMaterializedViews_idempotent:
  "(\<forall>n. fst (createPostgresMaterializedViews ord db) \<noteq> Some (AlreadyExists n))
   \<and> (\<exists>new. sent (snd (createPostgresMaterializedViews ord db))
          = sent db @ map (\<lambda>pmv. createStatement (Name pmv) (replaceStrings ord pmv)) new
        \<and> (\<forall>pmv \<in> set new. pmv \<in> set PostgresMatViews \<and> Name pmv \<notin> set (pg_matviews db)))
   \<and> ((\<forall>pmv \<in> set PostgresMatViews. Name pmv \<in> set (pg_matviews db)) \<longrightarrow>
        sent (snd (createPostgresMaterializedViews ord db)) = sent db
        \<and> pg_matviews (snd (createPostgresMaterializedViews ord db)) = pg_matviews db
        \<and> (fst (createPostgresMaterializedViews ord db) = None
            \<or> (\<exists>msg. fst (createPostgresMaterializedViews ord db) = Some (Failure msg)
                  \<and> Some msg \<in> set (faults db))))
   \<and> (faults db = [] \<longrightarrow>
        fst (createPostgresMaterializedViews ord db) = None
        \<and> (\<forall>k. createPostgresMaterializedViews ord'
                  (((\<lambda>d. snd (createPostgresMaterializedViews ord d)) ^^ Suc k) db)
              = (None, ((\<lambda>d. snd (createPostgresMaterializedViews ord d)) ^^ Suc k) db)))"
proof -
  let ?run = "createPostgresMaterializedViews"
  let ?stmt = "\<lambda>pmv. createStatement (Name pmv) (replaceStrings ord pmv)"
  obtain r db' where run: "?run ord db = (r, db')" by (cases "?run ord db")
  note res = createViewsLoop_result [OF run [unfolded createPostgresMaterializedViews_def]
      catalog_names(2)]
  from res have A: "\<forall>n. fst (?run ord db) \<noteq> Some (AlreadyExists n)"
    unfolding run by auto
  from res obtain new where new: "sent db' = sent db @ map ?stmt new"
    "set new \<subseteq> set (missingViews PostgresMatViews db)" by blast
  from res obtain made where made: "pg_matviews db' = pg_matviews db @ map Name made"
    "set made \<subseteq> set (missingViews PostgresMatViews db)" by blast
  have B: "\<exists>new. sent (snd (?run ord db)) = sent db @ map ?stmt new
        \<and> (\<forall>pmv \<in> set new. pmv \<in> set PostgresMatViews \<and> Name pmv \<notin> set (pg_matviews db))"
    unfolding run using new by (auto simp: missingViews_def)
  have C: "sent (snd (?run ord db)) = sent db
        \<and> pg_matviews (snd (?run ord db)) = pg_matviews db
        \<and> (fst (?run ord db) = None
            \<or> (\<exists>msg. fst (?run ord db) = Some (Failure msg) \<and> Some msg \<in> set (faults db)))"
    if "\<forall>pmv \<in> set PostgresMatViews. Name pmv \<in> set (pg_matviews db)"
    unfolding run using new made res missingViews_none [OF that] by simp
  have D: "fst (?run ord db) = None
        \<and> (\<forall>k. ?run ord' (((\<lambda>d. snd (?run ord d)) ^^ Suc k) db)
              = (None, ((\<lambda>d. snd (?run ord d)) ^^ Suc k) db))"
    if nf: "faults db = []"
  proof -
    note compl = createPostgresMaterializedViews_complete [OF nf, of ord]
    have fixed: "?run o' (snd (?run ord db)) = (None, snd (?run ord db))" for o'
      using createPostgresMaterializedViews_fixed [of "snd (?run ord db)" o'] compl by blast
    have iter: "((\<lambda>d. snd (?run ord d)) ^^ Suc k) db = snd (?run ord db)" for k
    proof (induction k)
      case 0
      show ?case by simp
    next
      case (Suc k)
      have "((\<lambda>d. snd (?run ord d)) ^^ Suc (Suc k)) db
          = snd (?run ord (((\<lambda>d. snd (?run ord d)) ^^ Suc k) db))"
        by (subst funpow.simps(2)) (simp only: o_apply)
      then show ?case unfolding Suc.IH fixed by simp
    qed
    from createPostgresMaterializedViews_nofault [OF nf, of ord]
    have "fst (?run ord db) = None" by simp
    then show ?thesis unfolding iter using fixed by simp
  qed
  from A B C D show ?thesis by blast
qed

theorem createPostgresMaterializedViews_idempotent_witness:
  "set (map Name PostgresMatViews) \<subseteq> set (pg_matviews seededStore)
   \<and> faults seededStore = []
   \<and> fst (createPostgresMaterializedViews rev seededStore) = None
   \<and> sent (snd (createPostgresMaterializedViews rev seededStore)) = []
   \<and> pg_matviews (snd (createPostgresMaterializedViews rev seededStore)) = pg_matviews seededStore
   \<and> fst (createPostgresMaterializedViews id
            (((\<lambda>d. snd (createPostgresMaterializedViews rev d)) ^^ Suc 2) seededStore)) = None"
proof -
  have a: "\<forall>pmv \<in> set PostgresMatViews. Name pmv \<in> set (pg_matviews seededStore)"
    by (simp add: PostgresMatViews_def seededStore_def)
  have b: "faults seededStore = []" "sent seededStore = []"
    by (simp_all add: seededStore_def)
  note inst = createPostgresMaterializedViews_idempotent [of rev seededStore id]
  from inst a b(2) have c: "sent (snd (createPostgresMaterializedViews rev seededStore)) = []"
    "pg_matviews (snd (createPostgresMaterializedViews rev seededStore)) = pg_matviews seededStore"
    by simp_all
  from inst b(1) have d: "fst (createPostgresMaterializedViews rev seededStore) = None"
    and e: "\<forall>k. createPostgresMaterializedViews id
                  (((\<lambda>d. snd (createPostgresMaterializedViews rev d)) ^^ Suc k) seededStore)
              = (None, ((\<lambda>d. snd (createPostgresMaterializedViews rev d)) ^^ Suc k) seededStore)"
    by blast+
  from e [rule_format, of 2]
  have "fst (createPostgresMaterializedViews id
            (((\<lambda>d. snd (createPostgresMaterializedViews rev d)) ^^ Suc 2) seededStore)) = None"
    by (simp only: fst_conv)
  moreover from a have "set (map Name PostgresMatViews) \<subseteq> set (pg_matviews seededStore)"
    by auto
  ultimately show ?thesis using b(1) c d by blast
qed




section \<open>Seeding the suites\<close>

lemma firstSuite_result:
  assumes "firstSuite n db = (r, db1)"
  shows "suites db1 = suites db
    \<and> ((\<exists>msg. r = Some (Failure msg)) \<or> (r = None \<and> n \<in> set (suites db))
        \<or> (r = Some ErrRecordNotFound \<and> n \<notin> set (suites db)))"
proof -
  obtain f d where nf: "nextFault db = (f, d)" by (cases "nextFault db")
  from nextFault_keeps [OF nf] assms show ?thesis
    by (cases f) (auto simp: firstSuite_def nf split: if_splits)
qed

lemma createSuite_result:
  assumes "createSuite n db = (r, db2)"
  shows "(r = None \<and> suites db2 = suites db @ [n])
    \<or> ((\<exists>msg. r = Some (Failure msg)) \<and> suites db2 = suites db)"
proof -
  obtain f d where nf: "nextFault db = (f, d)" by (cases "nextFault db")
  from nextFault_keeps [OF nf] assms show ?thesis
    by (cases f) (auto simp: createSuite_def nf)
qed

lemma populateLoop_result:
  assumes "populateLoop ns db = (r, db')"
  shows "\<exists>new. suites db' = suites db @ new \<and> distinct new
    \<and> set new \<subseteq> set ns - set (suites db)
    \<and> (r = None \<longrightarrow> set ns \<subseteq> set (suites db'))"
  using assms
proof (induction ns arbitrary: db)
  case Nil
  then show ?case by simp
next
  case (Cons n ns)
  obtain rf db1 where f: "firstSuite n db = (rf, db1)" by (cases "firstSuite n db")
  note f1 = firstSuite_result [OF f]
  from f1 consider (fault) msg where "rf = Some (Failure msg)"
    | (found) "rf = None" "n \<in> set (suites db)"
    | (absent) "rf = Some ErrRecordNotFound" "n \<notin> set (suites db)"
    by blast
  then show ?case
  proof cases
    case fault
    with Cons.prems f have "db' = db1" "r \<noteq> None" by auto
    with f1 have "suites db' = suites db @ []" "r \<noteq> None" by simp_all
    then show ?thesis by (intro exI [of _ "[]"]) auto
  next
    case found
    with Cons.prems f have rec: "populateLoop ns db1 = (r, db')" by simp
    from Cons.IH [OF rec] obtain new where new: "suites db' = suites db1 @ new" "distinct new"
      "set new \<subseteq> set ns - set (suites db1)" "r = None \<longrightarrow> set ns \<subseteq> set (suites db')"
      by blast
    from new f1 found(2) show ?thesis by (intro exI [of _ new]) auto
  next
    case absent
    obtain rc db2 where c: "createSuite n db1 = (rc, db2)" by (cases "createSuite n db1")
    from createSuite_result [OF c]
    consider (created) "rc = None" "suites db2 = suites db1 @ [n]"
      | (failed) msg where "rc = Some (Failure msg)" "suites db2 = suites db1"
      by blast
    then show ?thesis
    proof cases
      case failed
      with Cons.prems f c absent have "db' = db2" "r \<noteq> None" by auto
      with f1 failed have "suites db' = suites db @ []" "r \<noteq> None" by simp_all
      then show ?thesis by (intro exI [of _ "[]"]) auto
    next
      case created
      with Cons.prems f c absent have rec: "populateLoop ns db2 = (r, db')" by simp
      from Cons.IH [OF rec] obtain new where new: "suites db' = suites db2 @ new" "distinct new"
        "set new \<subseteq> set ns - set (suites db2)" "r = None \<longrightarrow> set ns \<subseteq> set (suites db')"
        by blast
      from new f1 created absent(2) show ?thesis by (intro exI [of _ "n # new"]) auto
    qed
  qed
qed

lemma count_list_distinct: "distinct xs \<Longrightarrow> count_list xs x \<le> 1"
  by (induction xs) (auto simp: count_list_0_iff)

lemma New_populated:
  assumes "New ord dsn db = (Inr c, db')"
  shows "\<exists>db2 db3. populateTestSuitesInDB db2 = (None, db3)
    \<and> createPostgresMaterializedViews ord db3 = (None, db')"
  using assms by (auto simp: New_def split: prod.splits option.splits)

text \<open>
  C6.  When \<^verbatim>\<open>populateTestSuitesInDB\<close> returns nil, and so when \<^verbatim>\<open>New\<close> returns a
  client, every name of the registry is the name of a suite row.  Whatever the run
  returns, the suite rows afterwards are the rows before, in place, followed by new
  rows with distinct names, each a name of the registry that had no row: no row is
  deleted, and no name gets more rows than it had unless it had none and then it gets
  one.  A store that holds every name of the registry keeps its suite rows unchanged.
\<close>

theorem populateTestSuitesInDB_seeds:
  "(fst (populateTestSuitesInDB db) = None \<longrightarrow>
      set testSuitePrefixes \<subseteq> set (suites (snd (populateTestSuitesInDB db))))
   \<and> (New ord dsn db = (Inr c, db') \<longrightarrow> set testSuitePrefixes \<subseteq> set (suites db'))
   \<and> (\<exists>new. suites (snd (populateTestSuitesInDB db)) = suites db @ new \<and> distinct new
         \<and> set new \<subseteq> set testSuitePrefixes - set (suites db))
   \<and> (\<forall>n. count_list (suites (snd (populateTestSuitesInDB db))) n
           \<le> max 1 (count_list (suites db) n))
   \<and> (set testSuitePrefixes \<subseteq> set (suites db) \<longrightarrow>
        suites (snd (populateTestSuitesInDB db)) = suites db)"
proof -
  let ?run = "populateTestSuitesInDB"
  obtain r d where run: "?run db = (r, d)" by (cases "?run db")
  from populateLoop_result [OF run [unfolded populateTestSuitesInDB_def]]
  obtain new where new: "suites d = suites db @ new" "distinct new"
    "set new \<subseteq> set testSuitePrefixes - set (suites db)"
    "r = None \<longrightarrow> set testSuitePrefixes \<subseteq> set (suites d)" by blast
  have A: "fst (?run db) = None \<longrightarrow> set testSuitePrefixes \<subseteq> set (suites (snd (?run db)))"
    unfolding run using new(4) by simp
  have B: "set testSuitePrefixes \<subseteq> set (suites db')" if n: "New ord dsn db = (Inr c, db')"
  proof -
    from New_populated [OF n] obtain db2 db3 where p: "populateTestSuitesInDB db2 = (None, db3)"
      and v: "createPostgresMaterializedViews ord db3 = (None, db')" by blast
    from populateLoop_result [OF p [unfolded populateTestSuitesInDB_def]]
    have "set testSuitePrefixes \<subseteq> set (suites db3)" by blast
    moreover from createViewsLoop_result [OF v [unfolded createPostgresMaterializedViews_def]
        catalog_names(2)]
    have "suites db' = suites db3" by simp
    ultimately show ?thesis by simp
  qed
  have C: "\<exists>new. suites (snd (?run db)) = suites db @ new \<and> distinct new
         \<and> set new \<subseteq> set testSuitePrefixes - set (suites db)"
    unfolding run using new by auto
  have D: "count_list (suites (snd (?run db))) n \<le> max 1 (count_list (suites db) n)" for n
  proof (cases "n \<in> set new")
    case True
    with new(3) have "count_list (suites db) n = 0" by (auto simp: count_list_0_iff)
    with count_list_distinct [OF new(2), of n] show ?thesis unfolding run by (simp add: new(1))
  next
    case False
    then have "count_list new n = 0" by (simp add: count_list_0_iff)
    then show ?thesis unfolding run by (simp add: new(1))
  qed
  have E: "suites (snd (?run db)) = suites db" if "set testSuitePrefixes \<subseteq> set (suites db)"
  proof -
    from new(3) that have "new = []" by (cases new) auto
    then show ?thesis unfolding run by (simp add: new(1))
  qed
  from A B C D E show ?thesis by blast
qed

theorem populateTestSuitesInDB_seeds_witness:
  "fst (populateTestSuitesInDB emptyStore) = None
   \<and> set testSuitePrefixes \<subseteq> set (suites (snd (populateTestSuitesInDB emptyStore)))
   \<and> suites (snd (populateTestSuitesInDB emptyStore))
       = [''openshift-tests'', ''openshift-tests-upgrade'', ''sippy'']
   \<and> New id ''postgresql://sippy'' seededStore
       = (Inr \<lparr>DB = ''postgresql://sippy'', BatchSize = 1024\<rparr>, seededStore)
   \<and> set testSuitePrefixes \<subseteq> set (suites seededStore)
   \<and> suites (snd (populateTestSuitesInDB seededStore)) = suites seededStore"
proof -
  have a: "populateTestSuitesInDB emptyStore
      = (None, emptyStore\<lparr>suites := [''openshift-tests'', ''openshift-tests-upgrade'', ''sippy'']\<rparr>)"
    by (simp add: populateTestSuitesInDB_def testSuitePrefixes_def firstSuite_def createSuite_def
        nextFault_def emptyStore_def)
  have h: "New id ''postgresql://sippy'' seededStore
      = (Inr \<lparr>DB = ''postgresql://sippy'', BatchSize = 1024\<rparr>, seededStore)"
    by (simp add: New_def Open_def migratedModels_def AutoMigrate_def nextFault_def
        populateTestSuitesInDB_def testSuitePrefixes_def firstSuite_def
        createPostgresMaterializedViews_def PostgresMatViews_def countMatViews_def
        seededStore_def)
  have s: "set testSuitePrefixes \<subseteq> set (suites seededStore)"
    by (simp add: testSuitePrefixes_def seededStore_def)
  from populateTestSuitesInDB_seeds [of emptyStore id "''postgresql://sippy''"
      "\<lparr>DB = ''postgresql://sippy'', BatchSize = 1024\<rparr>" seededStore]
    populateTestSuitesInDB_seeds [of seededStore id "''postgresql://sippy''"
      "\<lparr>DB = ''postgresql://sippy'', BatchSize = 1024\<rparr>" seededStore]
    a h s
  show ?thesis by simp
qed

end
